theory Spec2Isabelle
  imports Main
begin

section \<open>SmartOptions: the command line parameter processing library\<close>

text \<open>
  A shallow embedding of \<^verbatim>\<open>inc/SmartOptions/SmartOptions.hpp\<close>.

  \<^item> A C string (\<^verbatim>\<open>const char *\<close> pointing to characters ended by NUL) is the list of
    its characters before the terminator, so a token never contains NUL. A pointer that may
    be \<^verbatim>\<open>NULL\<close> is a \<open>string option\<close>.
  \<^item> The destinations are pointers into the caller's memory. The memory is explicit: one
    store of \<^verbatim>\<open>bool\<close> variables and one of \<^verbatim>\<open>const char *\<close> variables, both
    indexed by addresses, so that two rules may share a destination.
  \<^item> \<^verbatim>\<open>std::string::replace\<close> and \<^verbatim>\<open>erase\<close> throw \<^verbatim>\<open>std::out_of_range\<close>, and the
    parser reads \<^verbatim>\<open>token[1]\<close> without looking at \<^verbatim>\<open>token[0]\<close> first: both are results of
    type \<open>fault\<close>.
  \<^item> The lines sent to \<^verbatim>\<open>std::cout\<close> are collected in \<open>cout\<close>. The text that
    \<^verbatim>\<open>PrintHelp\<close> writes with \<^verbatim>\<open>printf\<close> is not part of the model.
  \<^item> The name of the program is a string, as the constructor's documentation asks: every
    message starts from \<^verbatim>\<open>std::string(this->appName)\<close>. A destination is the address
    of a variable of the caller, never \<^verbatim>\<open>NULL\<close>.
\<close>

subsection \<open>Strings\<close>

type_synonym addr = nat

datatype fault = out_of_range | undefined_behaviour

definition NULL_TERMINATE :: char where
  "NULL_TERMINATE = CHR 0x00"

definition apostrophe :: char where
  "apostrophe = CHR 0x27"

text \<open>\<^verbatim>\<open>p[0]\<close> for a C string \<open>p\<close>: its first character, the terminator when it is empty.\<close>

fun first_char :: "string \<Rightarrow> char" where
  "first_char [] = NULL_TERMINATE"
| "first_char (c # cs) = c"

text \<open>
  \<^verbatim>\<open>s.rfind(",")\<close>: the position of the last occurrence, \<open>None\<close> for \<^verbatim>\<open>npos\<close>.
\<close>

fun rfind :: "string \<Rightarrow> char \<Rightarrow> nat option" where
  "rfind [] c = None"
| "rfind (x # xs) c =
     (case rfind xs c of
        Some i \<Rightarrow> Some (Suc i)
      | None \<Rightarrow> if x = c then Some 0 else None)"

text \<open>
  \<^verbatim>\<open>s.replace(pos, n, r)\<close> throws when \<open>pos > s.size()\<close>; \<^verbatim>\<open>npos\<close> is greater than
  every size.
\<close>

definition replace :: "string \<Rightarrow> nat option \<Rightarrow> nat \<Rightarrow> string \<Rightarrow> fault + string" where
  "replace s pos n r =
     (case pos of
        None \<Rightarrow> Inl out_of_range
      | Some p \<Rightarrow>
          if length s < p then Inl out_of_range
          else Inr (take p s @ r @ drop (p + n) s))"

text \<open>
  \<^verbatim>\<open>s.erase(s.size() - 2)\<close>: the subtraction is on \<^verbatim>\<open>size_t\<close>, so on a string shorter
  than two characters the position wraps around beyond the size and \<^verbatim>\<open>erase\<close> throws.
\<close>

definition erase_last2 :: "string \<Rightarrow> fault + string" where
  "erase_last2 s =
     (if length s < 2 then Inl out_of_range else Inr (take (length s - 2) s))"

subsection \<open>The caller's memory\<close>

record memory =
  bools :: "addr \<Rightarrow> bool"
  strs :: "addr \<Rightarrow> string option"

definition store_bool :: "addr \<Rightarrow> bool \<Rightarrow> memory \<Rightarrow> memory" where
  "store_bool a v m = m\<lparr>bools := (bools m)(a := v)\<rparr>"

definition store_str :: "addr \<Rightarrow> string option \<Rightarrow> memory \<Rightarrow> memory" where
  "store_str a v m = m\<lparr>strs := (strs m)(a := v)\<rparr>"

subsection \<open>Rules\<close>

record SmartOptionsArg =
  prefixShort :: char
  prefixLong :: "string option"
  metaVariable :: "string option"
  helpString :: "string option"

record SmartOptionsOptionArg = SmartOptionsArg +
  destVariable :: addr

record SmartOptionsFlagArg = SmartOptionsArg +
  destVariable :: addr

record SmartOptionsPositionalArg = SmartOptionsArg +
  destVariable :: addr

text \<open>The constructors: each returns the rule and the memory it leaves.\<close>

definition SmartOptionsOptionArg ::
  "char \<Rightarrow> string option \<Rightarrow> string option \<Rightarrow> string option \<Rightarrow> addr \<Rightarrow> memory
     \<Rightarrow> SmartOptionsOptionArg \<times> memory" where
  "SmartOptionsOptionArg ps pl mv hs dest m =
     (\<lparr>prefixShort = ps, prefixLong = pl, metaVariable = mv, helpString = hs,
       SmartOptionsOptionArg.destVariable = dest\<rparr>,
      store_str dest None m)"

text \<open>
  The flag constructor hands its own, not yet initialised \<^verbatim>\<open>metaVariable\<close> member to the
  base class; the member is never read, and is \<open>None\<close> here.
\<close>

definition SmartOptionsFlagArg ::
  "char \<Rightarrow> string option \<Rightarrow> string option \<Rightarrow> addr \<Rightarrow> memory
     \<Rightarrow> SmartOptionsFlagArg \<times> memory" where
  "SmartOptionsFlagArg ps pl hs dest m =
     (\<lparr>prefixShort = ps, prefixLong = pl, metaVariable = None, helpString = hs,
       SmartOptionsFlagArg.destVariable = dest\<rparr>,
      store_bool dest False m)"

definition SmartOptionsPositionalArg ::
  "string option \<Rightarrow> string option \<Rightarrow> addr \<Rightarrow> memory
     \<Rightarrow> SmartOptionsPositionalArg \<times> memory" where
  "SmartOptionsPositionalArg mv hs dest m =
     (\<lparr>prefixShort = CHR 0x00, prefixLong = None, metaVariable = mv, helpString = hs,
       SmartOptionsPositionalArg.destVariable = dest\<rparr>,
      m)"

datatype SMARTOPTIONS_STATUS =
    SMARTOPTIONS_SUCCESS
  | SMARTOPTIONS_INVALID_ARGUMENT
  | SMARTOPTIONS_INVALID_NUMBEROF_ARGUMENTS
  | SMARTOPTIONS_SYSTEM_ERROR

subsection \<open>The class\<close>

record SmartOptions =
  argC :: int
  argV :: "string list"
  appName :: string
  usage :: "string option"
  description :: "string option"
  autoPrintHelp :: bool
  options :: "SmartOptionsOptionArg list"
  flags :: "SmartOptionsFlagArg list"
  posArgs :: "SmartOptionsPositionalArg list"

definition SmartOptions :: "string \<Rightarrow> bool \<Rightarrow> SmartOptions" where
  "SmartOptions programName aph =
     \<lparr>argC = 0, argV = [], appName = programName, usage = None, description = None,
      autoPrintHelp = aph, options = [], flags = [], posArgs = []\<rparr>"

definition AddDescription :: "string option \<Rightarrow> SmartOptions \<Rightarrow> SmartOptions" where
  "AddDescription d so = so\<lparr>description := d\<rparr>"

definition AddUsage :: "string option \<Rightarrow> SmartOptions \<Rightarrow> SmartOptions" where
  "AddUsage u so = so\<lparr>usage := u\<rparr>"

definition AddOption ::
  "char \<Rightarrow> string option \<Rightarrow> string option \<Rightarrow> string option \<Rightarrow> addr
     \<Rightarrow> SmartOptions \<times> memory \<Rightarrow> SmartOptions \<times> memory" where
  "AddOption ps pl mv hs dest w =
     (case SmartOptionsOptionArg ps pl mv hs dest (snd w) of
        (option, m) \<Rightarrow> ((fst w)\<lparr>options := options (fst w) @ [option]\<rparr>, m))"

definition AddFlag ::
  "char \<Rightarrow> string option \<Rightarrow> string option \<Rightarrow> addr
     \<Rightarrow> SmartOptions \<times> memory \<Rightarrow> SmartOptions \<times> memory" where
  "AddFlag ps pl hs dest w =
     (case SmartOptionsFlagArg ps pl hs dest (snd w) of
        (flag, m) \<Rightarrow> ((fst w)\<lparr>flags := flags (fst w) @ [flag]\<rparr>, m))"

definition AddPositionalArgument ::
  "string option \<Rightarrow> string option \<Rightarrow> addr
     \<Rightarrow> SmartOptions \<times> memory \<Rightarrow> SmartOptions \<times> memory" where
  "AddPositionalArgument mv hs dest w =
     (case SmartOptionsPositionalArg mv hs dest (snd w) of
        (pos, m) \<Rightarrow> ((fst w)\<lparr>posArgs := posArgs (fst w) @ [pos]\<rparr>, m))"

definition useCommandArgs :: "int \<Rightarrow> string list \<Rightarrow> SmartOptions \<Rightarrow> SmartOptions" where
  "useCommandArgs c v so = so\<lparr>argC := c, argV := v\<rparr>"

subsection \<open>The parse\<close>

text \<open>
  The locals of \<^verbatim>\<open>ProcessCommandArgs\<close> that live across the loop, with the caller's memory
  and the output stream. \<open>posArgsIt\<close> is the iterator as an index into \<open>posArgs\<close>.
\<close>

record session =
  mem :: memory
  posArgsIt :: nat
  posArgsCount :: nat
  strPosArgErrMsg :: string
  strErrMessage :: string
  cout :: "string list"

text \<open>
  The loop over the flags: \<open>c\<close> is \<^verbatim>\<open>*(char*)token\<close> after \<^verbatim>\<open>token++\<close>. The result is
  \<^verbatim>\<open>isTokenProcessed\<close> and the memory.
\<close>

fun flags_loop :: "SmartOptionsFlagArg list \<Rightarrow> char \<Rightarrow> memory \<Rightarrow> bool \<times> memory" where
  "flags_loop [] c m = (False, m)"
| "flags_loop (f # fs) c m =
     (if prefixShort f = c
      then (True, store_bool (SmartOptionsFlagArg.destVariable f) True m)
      else flags_loop fs c m)"

text \<open>
  The loop over the options. \<open>body\<close> is the token after \<^verbatim>\<open>token++\<close>, \<open>rest\<close> the tokens
  \<^verbatim>\<open>argV[index+1 .. argc-1]\<close>, so \<^verbatim>\<open>index >= argc-1\<close> is \<open>rest = []\<close> and
  \<^verbatim>\<open>argV[++index]\<close> is the head of \<open>rest\<close>. The result is \<^verbatim>\<open>isTokenProcessed\<close>, by how much
  \<^verbatim>\<open>index\<close> was incremented, the memory and \<^verbatim>\<open>strErrMessage\<close>. A rule whose value is
  missing does not leave the loop. When \<open>body\<close> is empty, \<^verbatim>\<open>token[1]\<close> lies behind the
  terminator.
\<close>

fun options_loop ::
  "SmartOptionsOptionArg list \<Rightarrow> string \<Rightarrow> string list \<Rightarrow> memory \<Rightarrow> string
     \<Rightarrow> fault + (bool \<times> nat \<times> memory \<times> string)" where
  "options_loop [] body rest m err = Inr (False, 0, m, err)"
| "options_loop (opt # opts) body rest m err =
     (if prefixShort opt = first_char body then
        (case body of
           [] \<Rightarrow> Inl undefined_behaviour
         | c # val \<Rightarrow>
             if NULL_TERMINATE \<noteq> first_char val then
               Inr (True, 0, store_str (SmartOptionsOptionArg.destVariable opt) (Some val) m, err)
             else
               (case rest of
                  [] \<Rightarrow>
                    options_loop opts body rest m
                      ('': Error, missing value for '' @ [apostrophe] @ ''-''
                         @ [prefixShort opt] @ [apostrophe] @ '' option.'')
                | optionStr # _ \<Rightarrow>
                    Inr (True, 1,
                         store_str (SmartOptionsOptionArg.destVariable opt) (Some optionStr) m,
                         err)))
      else options_loop opts body rest m err)"

text \<open>
  What one turn of the \<^verbatim>\<open>for\<close> loop decides: go on, with \<^verbatim>\<open>index\<close> incremented inside
  the turn by the given number, or return a status.
\<close>

datatype verdict = Continue nat | Return SMARTOPTIONS_STATUS

definition flag_or_option ::
  "SmartOptions \<Rightarrow> string \<Rightarrow> string list \<Rightarrow> session \<Rightarrow> fault + (verdict \<times> session)" where
  "flag_or_option so body rest s =
     (case flags_loop (flags so) (first_char body) (mem s) of
        (True, m) \<Rightarrow> Inr (Continue 0, s\<lparr>mem := m\<rparr>)
      | (False, _) \<Rightarrow>
          (case options_loop (options so) body rest (mem s) (strErrMessage s) of
             Inl f \<Rightarrow> Inl f
           | Inr (True, k, m, err) \<Rightarrow> Inr (Continue k, s\<lparr>mem := m, strErrMessage := err\<rparr>)
           | Inr (False, k, m, err) \<Rightarrow>
               Inr (Return SMARTOPTIONS_INVALID_ARGUMENT,
                    s\<lparr>mem := m, strErrMessage := err,
                      cout := cout s @
                        (if autoPrintHelp so then
                           [if err \<noteq> [] then appName so @ err
                            else appName so @ '': Error, invalid argument '' @ [apostrophe]
                                   @ ''-'' @ [first_char body] @ [apostrophe] @ ''.'']
                         else [])\<rparr>)))"

definition positional :: "SmartOptions \<Rightarrow> string \<Rightarrow> session \<Rightarrow> session" where
  "positional so token s =
     (let s1 =
        (if posArgsIt s < length (posArgs so) then
           s\<lparr>mem := store_str
                      (SmartOptionsPositionalArg.destVariable (posArgs so ! posArgsIt s))
                      (Some token) (mem s),
             posArgsIt := posArgsIt s + 1\<rparr>
         else if strPosArgErrMsg s = [] then
           s\<lparr>strPosArgErrMsg :=
               appName so @ '': Error, invalid number of mandatory arguments ('' @ token\<rparr>
         else
           s\<lparr>strPosArgErrMsg := strPosArgErrMsg s @ '', '' @ token\<rparr>)
      in s1\<lparr>posArgsCount := posArgsCount s1 + 1\<rparr>)"

definition step ::
  "SmartOptions \<Rightarrow> string \<Rightarrow> string list \<Rightarrow> session \<Rightarrow> fault + (verdict \<times> session)" where
  "step so token rest s =
     (if CHR ''-'' = first_char token then flag_or_option so (tl token) rest s
      else Inr (Continue 0, positional so token s))"

text \<open>
  The \<^verbatim>\<open>for\<close> loop, on the tokens from \<^verbatim>\<open>argV[index]\<close> on. \<open>None\<close> is the end of the
  loop without a \<^verbatim>\<open>return\<close>.
\<close>

fun scan ::
  "SmartOptions \<Rightarrow> string list \<Rightarrow> session
     \<Rightarrow> fault + (SMARTOPTIONS_STATUS option \<times> session)" where
  "scan so [] s = Inr (None, s)"
| "scan so (token # rest) s =
     (case step so token rest s of
        Inl f \<Rightarrow> Inl f
      | Inr (Return st, s') \<Rightarrow> Inr (Some st, s')
      | Inr (Continue k, s') \<Rightarrow> scan so (drop k rest) s')"

text \<open>
  The tokens the loop reads as \<^verbatim>\<open>this->argV[index]\<close>, each with the tokens behind it:
  the recursion of \<open>scan\<close>, keeping the places it visits.
\<close>

fun visited :: "SmartOptions \<Rightarrow> string list \<Rightarrow> session \<Rightarrow> (string \<times> string list) list" where
  "visited so [] s = []"
| "visited so (token # rest) s =
     (token, rest) #
     (case step so token rest s of
        Inr (Continue k, s') \<Rightarrow> visited so (drop k rest) s'
      | _ \<Rightarrow> [])"

text \<open>The repair of the message about surplus positional arguments, after the loop.\<close>

definition fix_surplus_message :: "string \<Rightarrow> fault + string" where
  "fix_surplus_message msg =
     (if msg \<noteq> [] then
        (let msg1 = msg @ '')'' in replace msg1 (rfind msg1 CHR '','') 1 '' &'')
      else Inr msg)"

text \<open>
  \<^verbatim>\<open>std::string("'") + posArg.metaVariable + "', "\<close> for every positional rule.
\<close>

fun append_metas :: "SmartOptionsPositionalArg list \<Rightarrow> string \<Rightarrow> fault + string" where
  "append_metas [] msg = Inr msg"
| "append_metas (p # ps) msg =
     (case metaVariable p of
        None \<Rightarrow> Inl undefined_behaviour
      | Some mv \<Rightarrow> append_metas ps (msg @ [apostrophe] @ mv @ [apostrophe] @ '', ''))"

definition mandatory_message :: "SmartOptions \<Rightarrow> string \<Rightarrow> fault + string" where
  "mandatory_message so msg =
     (if length (posArgs so) = 1 then
        (case metaVariable (hd (posArgs so)) of
           None \<Rightarrow> Inl undefined_behaviour
         | Some mv \<Rightarrow>
             Inr (msg @ ''. The only mandatory parameter is '' @ [apostrophe] @ mv
                    @ [apostrophe]))
      else
        (case append_metas (posArgs so) (msg @ ''. The mandatory parameters are '') of
           Inl f \<Rightarrow> Inl f
         | Inr msg2 \<Rightarrow>
             (case erase_last2 msg2 of
                Inl f \<Rightarrow> Inl f
              | Inr msg3 \<Rightarrow>
                  (case replace msg3 (rfind msg3 CHR '','') 1 '' &'' of
                     Inl f \<Rightarrow> Inl f
                   | Inr msg4 \<Rightarrow> Inr (msg4 @ ''.'')))))"

text \<open>
  The validation behind the loop. With automatic help and a number of positional rules
  other than one, the loop over their names leaves \<^verbatim>\<open>posArgsIt\<close> at the end of
  \<open>posArgs\<close>.
\<close>

definition validate :: "SmartOptions \<Rightarrow> session \<Rightarrow> fault + (SMARTOPTIONS_STATUS \<times> session)" where
  "validate so s =
     (if posArgsCount s \<noteq> length (posArgs so) then
        (let msg = (if strPosArgErrMsg s = []
                    then appName so @ '': Error, invalid number of mandatory arguments''
                    else strPosArgErrMsg s)
         in if autoPrintHelp so then
              (case mandatory_message so msg of
                 Inl f \<Rightarrow> Inl f
               | Inr msg' \<Rightarrow>
                   Inr (SMARTOPTIONS_INVALID_NUMBEROF_ARGUMENTS,
                        s\<lparr>posArgsIt := (if length (posArgs so) = 1 then posArgsIt s
                                         else length (posArgs so)),
                          strPosArgErrMsg := msg', cout := cout s @ [msg']\<rparr>))
            else Inr (SMARTOPTIONS_INVALID_NUMBEROF_ARGUMENTS, s\<lparr>strPosArgErrMsg := msg\<rparr>))
      else Inr (SMARTOPTIONS_SUCCESS, s))"

definition begin_session :: "memory \<Rightarrow> session" where
  "begin_session m =
     \<lparr>mem = m, posArgsIt = 0, posArgsCount = 0, strPosArgErrMsg = [], strErrMessage = [],
      cout = []\<rparr>"

text \<open>
  \<^verbatim>\<open>ProcessCommandArgs(argc, argv)\<close>, where \<open>argc\<close> is the number of entries of \<open>argv\<close>,
  as its documentation asks. The loop starts at index 1. The object changes in \<open>argC\<close>
  and \<open>argV\<close> only, which nothing reads afterwards, and is not returned.
\<close>

definition ProcessCommandArgs ::
  "SmartOptions \<Rightarrow> string list \<Rightarrow> memory \<Rightarrow> fault + (SMARTOPTIONS_STATUS \<times> session)" where
  "ProcessCommandArgs so argv m =
     (let this = useCommandArgs (int (length argv)) argv so in
      case scan this (drop 1 (argV this)) (begin_session m) of
        Inl f \<Rightarrow> Inl f
      | Inr (Some st, s) \<Rightarrow> Inr (st, s)
      | Inr (None, s) \<Rightarrow>
          (case fix_surplus_message (strPosArgErrMsg s) of
             Inl f \<Rightarrow> Inl f
           | Inr msg \<Rightarrow> validate this (s\<lparr>strPosArgErrMsg := msg\<rparr>)))"

subsection \<open>Callers\<close>

text \<open>
  Two memories of a caller: one whose variables are \<^verbatim>\<open>false\<close> and \<^verbatim>\<open>NULL\<close>, as the test
  suites declare them, and one whose variables still hold earlier values.
\<close>

definition blank :: memory where
  "blank = \<lparr>bools = (\<lambda>_. False), strs = (\<lambda>_. None)\<rparr>"

definition stale :: memory where
  "stale = \<lparr>bools = (\<lambda>_. True), strs = (\<lambda>_. Some ''stale'')\<rparr>"

text \<open>
  Rules registered as a caller would. In \<open>shared_id\<close> a flag and an option have the same
  short identifier; in \<open>twice\<close> two flags share one and two options share another; in
  \<open>several\<close> every rule has its own identifier and its own destination.
\<close>

definition shared_id :: "SmartOptions \<times> memory" where
  "shared_id =
     AddOption CHR ''o'' None None None 1
       (AddFlag CHR ''o'' None None 1 (SmartOptions ''App'' False, blank))"

definition twice :: "SmartOptions \<times> memory" where
  "twice =
     AddOption CHR ''o'' None None None 2
       (AddOption CHR ''o'' None None None 1
          (AddFlag CHR ''f'' None None 2
             (AddFlag CHR ''f'' None None 1 (SmartOptions ''App'' False, blank))))"

definition several :: "SmartOptions \<times> memory" where
  "several =
     AddPositionalArgument (Some ''posArg_1'') None 3
       (AddOption CHR ''p'' None None None 2
          (AddOption CHR ''o'' None None None 1
             (AddFlag CHR ''b'' None None 2
                (AddFlag CHR ''a'' None None 1 (SmartOptions ''App'' False, stale)))))"

subsection \<open>Tokens that no rule handles\<close>


section \<open>Properties\<close>

subsection \<open>The loops over the rules\<close>

lemma flags_loop_find:
  "flags_loop fs c m =
     (case find (\<lambda>f. prefixShort f = c) fs of
        None \<Rightarrow> (False, m)
      | Some f \<Rightarrow> (True, store_bool (SmartOptionsFlagArg.destVariable f) True m))"
  by (induction fs) auto


lemma options_loop_missing:
  "first_char val = NULL_TERMINATE
   \<Longrightarrow> \<exists>err'. options_loop opts (c # val) [] m err = Inr (False, 0, m, err')"
  by (induction opts arbitrary: err) auto


lemma options_loop_separated:
  "find (\<lambda>opt. prefixShort opt = c) opts = Some opt \<Longrightarrow> first_char val = NULL_TERMINATE
   \<Longrightarrow> options_loop opts (c # val) (v # rest) m err =
         Inr (True, 1, store_str (SmartOptionsOptionArg.destVariable opt) (Some v) m, err)"
  by (induction opts) (auto split: if_splits)



lemma options_loop_bools:
  "options_loop opts body rest m err = Inr (p, k, m', err') \<Longrightarrow> bools m' = bools m"
  by (induction opts arbitrary: err)
     (auto simp: store_str_def split: if_splits list.splits)

lemma options_loop_missing_mem:
  assumes "first_char val = NULL_TERMINATE"
    and "options_loop opts (c # val) [] m err = Inr (p, k, m', err')"
  shows "m' = m"
  using options_loop_missing [OF assms(1), of opts c m err] assms(2) by auto

lemma options_loop_strs:
  "options_loop opts body rest m err = Inr (p, k, m', err')
   \<Longrightarrow> m' = m \<or>
       (\<exists>opt val. find (\<lambda>opt. prefixShort opt = first_char body) opts = Some opt \<and>
          m' = store_str (SmartOptionsOptionArg.destVariable opt) (Some val) m)"
  by (induction opts arbitrary: err)
     (auto split: if_splits list.splits dest: options_loop_missing_mem [rotated])

lemma distinct_dest_flags:
  "distinct (map SmartOptionsFlagArg.destVariable fs) \<Longrightarrow> f \<in> set fs \<Longrightarrow> g \<in> set fs
   \<Longrightarrow> f \<noteq> g \<Longrightarrow> SmartOptionsFlagArg.destVariable f \<noteq> SmartOptionsFlagArg.destVariable g"
  by (auto simp: distinct_map inj_on_def)

lemma distinct_dest_options:
  "distinct (map SmartOptionsOptionArg.destVariable fs) \<Longrightarrow> f \<in> set fs \<Longrightarrow> g \<in> set fs
   \<Longrightarrow> f \<noteq> g \<Longrightarrow> SmartOptionsOptionArg.destVariable f \<noteq> SmartOptionsOptionArg.destVariable g"
  by (auto simp: distinct_map inj_on_def)

lemma find_Some_set: "find P xs = Some x \<Longrightarrow> x \<in> set xs \<and> P x"
  by (auto simp: find_Some_iff)

text \<open>The loop reads neither \<open>argC\<close> nor \<open>argV\<close> but for the tokens it is given.\<close>

lemma step_useCommandArgs [simp]:
  "step (useCommandArgs c v so) token rest s = step so token rest s"
  by (auto simp add: step_def flag_or_option_def positional_def useCommandArgs_def
      split: prod.splits sum.splits bool.splits)

lemma scan_useCommandArgs [simp]:
  "scan (useCommandArgs c v so) tokens s = scan so tokens s"
  by (induction so tokens s rule: scan.induct) (auto split: sum.splits verdict.splits)

lemma visited_useCommandArgs [simp]:
  "visited (useCommandArgs c v so) tokens s = visited so tokens s"
  by (induction so tokens s rule: visited.induct) (auto split: sum.splits verdict.splits)

lemma argV_useCommandArgs [simp]: "argV (useCommandArgs c v so) = v"
  by (simp add: useCommandArgs_def)

lemma mandatory_message_useCommandArgs [simp]:
  "mandatory_message (useCommandArgs c v so) msg = mandatory_message so msg"
  by (simp add: mandatory_message_def useCommandArgs_def)

lemma validate_useCommandArgs [simp]: "validate (useCommandArgs c v so) s = validate so s"
proof -
  have "posArgs (useCommandArgs c v so) = posArgs so"
    "appName (useCommandArgs c v so) = appName so"
    "autoPrintHelp (useCommandArgs c v so) = autoPrintHelp so"
    by (simp_all add: useCommandArgs_def)
  then show ?thesis by (simp add: validate_def Let_def split: sum.splits)
qed

lemma ProcessCommandArgs_scan:
  "ProcessCommandArgs so argv m =
     (case scan so (drop 1 argv) (begin_session m) of
        Inl f \<Rightarrow> Inl f
      | Inr (Some st, s) \<Rightarrow> Inr (st, s)
      | Inr (None, s) \<Rightarrow>
          (case fix_surplus_message (strPosArgErrMsg s) of
             Inl f \<Rightarrow> Inl f
           | Inr msg \<Rightarrow> validate so (s\<lparr>strPosArgErrMsg := msg\<rparr>)))"
  by (simp add: ProcessCommandArgs_def Let_def split: sum.splits prod.splits option.splits)

lemmas parse_defs =
  ProcessCommandArgs_def SmartOptions_def useCommandArgs_def begin_session_def step_def
  positional_def flag_or_option_def fix_surplus_message_def replace_def validate_def
  mandatory_message_def erase_last2_def NULL_TERMINATE_def apostrophe_def
  AddPositionalArgument_def SmartOptionsPositionalArg_def AddOption_def
  SmartOptionsOptionArg_def AddFlag_def SmartOptionsFlagArg_def store_str_def store_bool_def

lemmas rule_defs = shared_id_def twice_def blank_def parse_defs

lemmas several_defs = several_def stale_def parse_defs

subsection \<open>Registration\<close>

lemma AddFlag_effect:
  "flags (fst (AddFlag ps pl hs dest (so, m))) =
     flags so @ [\<lparr>prefixShort = ps, prefixLong = pl, metaVariable = None, helpString = hs,
                  SmartOptionsFlagArg.destVariable = dest\<rparr>]
   \<and> bools (snd (AddFlag ps pl hs dest (so, m))) dest = False"
  by (simp add: AddFlag_def SmartOptionsFlagArg_def store_bool_def)

lemma AddOption_effect:
  "options (fst (AddOption ps pl mv hs dest (so, m))) =
     options so @ [\<lparr>prefixShort = ps, prefixLong = pl, metaVariable = mv, helpString = hs,
                    SmartOptionsOptionArg.destVariable = dest\<rparr>]
   \<and> strs (snd (AddOption ps pl mv hs dest (so, m))) dest = None"
  by (simp add: AddOption_def SmartOptionsOptionArg_def store_str_def)

lemma AddPositionalArgument_effect:
  "posArgs (fst (AddPositionalArgument mv hs dest (so, m))) =
     posArgs so @ [\<lparr>prefixShort = CHR 0x00, prefixLong = None, metaVariable = mv,
                    helpString = hs, SmartOptionsPositionalArg.destVariable = dest\<rparr>]
   \<and> snd (AddPositionalArgument mv hs dest (so, m)) = m"
  by (simp add: AddPositionalArgument_def SmartOptionsPositionalArg_def)

text \<open>
  Claim C4. Every registration call appends its rule and initialises the destination:
  \<^verbatim>\<open>AddFlag\<close> to false, \<^verbatim>\<open>AddOption\<close> and \<^verbatim>\<open>AddPositionalArgument\<close> to \<^verbatim>\<open>NULL\<close>. The
  constructor of a positional rule only keeps the pointer: a variable that held a value
  before \<^verbatim>\<open>AddPositionalArgument\<close> holds it afterwards, while the same variable given to
  \<^verbatim>\<open>AddOption\<close> is \<^verbatim>\<open>NULL\<close>.
\<close>

theorem AddPositionalArgument_keeps_destination:
  "strs (snd (AddPositionalArgument (Some ''posArg_1'') (Some ''Positional Argument 1'') 0
            (SmartOptions ''SmartOptionsTest'' False, stale))) 0 = Some ''stale''
   \<and> strs (snd (AddOption CHR ''o'' (Some ''optionO'') (Some ''optArg_1'') (Some ''Help'') 0
            (SmartOptions ''SmartOptionsTest'' False, stale))) 0 = None"
  by (simp add: AddPositionalArgument_def SmartOptionsPositionalArg_def AddOption_def
      SmartOptionsOptionArg_def store_str_def stale_def)

subsection \<open>One turn of the loop\<close>

lemma step_positional:
  "CHR ''-'' \<noteq> first_char token \<Longrightarrow> step so token rest s = Inr (Continue 0, positional so token s)"
  by (simp add: step_def)

lemma positional_mem:
  "mem (positional so token s) =
     (if posArgsIt s < length (posArgs so)
      then store_str (SmartOptionsPositionalArg.destVariable (posArgs so ! posArgsIt s))
             (Some token) (mem s)
      else mem s)"
  by (simp add: positional_def Let_def)

lemma step_flag:
  "CHR ''-'' = first_char token
   \<Longrightarrow> find (\<lambda>f. prefixShort f = first_char (tl token)) (flags so) = Some f
   \<Longrightarrow> step so token rest s =
         Inr (Continue 0, s\<lparr>mem := store_bool (SmartOptionsFlagArg.destVariable f) True (mem s)\<rparr>)"
  by (simp add: step_def flag_or_option_def flags_loop_find)


lemma step_option_separated:
  "CHR ''-'' = first_char token
   \<Longrightarrow> find (\<lambda>f. prefixShort f = c) (flags so) = None
   \<Longrightarrow> find (\<lambda>opt. prefixShort opt = c) (options so) = Some opt
   \<Longrightarrow> tl token = c # val \<Longrightarrow> first_char val = NULL_TERMINATE
   \<Longrightarrow> step so token (v # rest) s =
         Inr (Continue 1,
              s\<lparr>mem := store_str (SmartOptionsOptionArg.destVariable opt) (Some v) (mem s)\<rparr>)"
  by (simp add: step_def flag_or_option_def flags_loop_find options_loop_separated)





subsection \<open>Priority among the rules\<close>



subsection \<open>Flags\<close>

text \<open>
  Claim C10, amended. For the first registered flag with short identifier \<open>c\<close>, a token
  \<open>-c\<close> followed by any text sets the destination of that flag to true, changes nothing
  else, and the parse goes on with the next token. (The claim says it of every registered
  flag with the identifier; a flag registered behind another one with the same identifier
  is never matched.)
\<close>

theorem flag_ignores_trailing_text:
  assumes "find (\<lambda>f. prefixShort f = c) (flags so) = Some f"
  shows "scan so ((CHR ''-'' # c # trailing) # rest) s =
           scan so rest
             (s\<lparr>mem := store_bool (SmartOptionsFlagArg.destVariable f) True (mem s)\<rparr>)"
  using step_flag [of "CHR ''-'' # c # trailing" so f rest s] assms by simp

theorem flag_ignores_trailing_text_witness:
  "scan (fst twice) [''-fxyz'', ''-oX''] (begin_session blank) =
     scan (fst twice) [''-oX''] ((begin_session blank)\<lparr>mem := store_bool 1 True blank\<rparr>)"
  using flag_ignores_trailing_text [where so = "fst twice" and c = "CHR ''f''"
      and trailing = "''xyz''" and rest = "[''-oX'']" and s = "begin_session blank"
      and f = "\<lparr>prefixShort = CHR ''f'', prefixLong = None, metaVariable = None,
              helpString = None, SmartOptionsFlagArg.destVariable = 1\<rparr>"]
  by (simp add: twice_def AddFlag_def AddOption_def SmartOptionsFlagArg_def
        SmartOptionsOptionArg_def SmartOptions_def begin_session_def)

text \<open>
  Two flags registered under \<open>f\<close>, with the destinations 1 and 2: the token \<open>-fxyz\<close>
  sets the first destination and leaves the second false.
\<close>

theorem shadowed_flag_counterexample:
  "map_sum id (\<lambda>r. (fst r, bools (mem (snd r)) 1, bools (mem (snd r)) 2))
     (ProcessCommandArgs (fst twice) [''App'', ''-fxyz''] (snd twice))
   = Inr (SMARTOPTIONS_SUCCESS, True, False)"
  by (simp add: rule_defs)

subsection \<open>Options\<close>

text \<open>
  Claim C6, amended. When no registered flag has the identifier \<open>c\<close> and some option
  has, a token \<open>-c\<close> that is not the last one takes the next token as the value of the
  first such option, whatever that token is, and the loop goes on behind it: the next
  token is not among the tokens the loop reads. (The claim asks only that an option has
  the identifier; when a flag has it too, the token is a flag and the next token is read
  on its own.)
\<close>

theorem separated_value_is_consumed:
  assumes "find (\<lambda>f. prefixShort f = c) (flags so) = None"
    and "find (\<lambda>opt. prefixShort opt = c) (options so) = Some opt"
  shows "scan so ([CHR ''-'', c] # v # rest) s =
           scan so rest
             (s\<lparr>mem := store_str (SmartOptionsOptionArg.destVariable opt) (Some v) (mem s)\<rparr>)
       \<and> visited so ([CHR ''-'', c] # v # rest) s =
           ([CHR ''-'', c], v # rest) #
           visited so rest
             (s\<lparr>mem := store_str (SmartOptionsOptionArg.destVariable opt) (Some v) (mem s)\<rparr>)"
  using step_option_separated [of "[CHR ''-'', c]" c so opt "[]" v rest s] assms by simp

theorem separated_value_is_consumed_witness:
  "scan (fst twice) [''-o'', ''-f'', ''x''] (begin_session blank) =
     scan (fst twice) [''x''] ((begin_session blank)\<lparr>mem := store_str 1 (Some ''-f'') blank\<rparr>)
   \<and> visited (fst twice) [''-o'', ''-f'', ''x''] (begin_session blank) =
       (''-o'', [''-f'', ''x'']) #
       visited (fst twice) [''x'']
         ((begin_session blank)\<lparr>mem := store_str 1 (Some ''-f'') blank\<rparr>)"
  using separated_value_is_consumed [where so = "fst twice" and c = "CHR ''o''"
      and v = "''-f''" and rest = "[''x'']" and s = "begin_session blank"
      and opt = "\<lparr>prefixShort = CHR ''o'', prefixLong = None, metaVariable = None,
              helpString = None, SmartOptionsOptionArg.destVariable = 1\<rparr>"]
  by (simp add: twice_def AddFlag_def AddOption_def SmartOptionsFlagArg_def
        SmartOptionsOptionArg_def SmartOptions_def begin_session_def)

text \<open>
  A flag and an option registered under \<open>o\<close>: behind \<open>-o\<close> the token \<open>x\<close> is counted
  as a positional argument and the destination of the option stays \<^verbatim>\<open>NULL\<close>.
\<close>

theorem flag_keeps_next_token_counterexample:
  "map_sum id (\<lambda>r. (fst r, bools (mem (snd r)) 1, strs (mem (snd r)) 1, posArgsCount (snd r)))
     (ProcessCommandArgs (fst shared_id) [''App'', ''-o'', ''x''] (snd shared_id))
   = Inr (SMARTOPTIONS_INVALID_NUMBEROF_ARGUMENTS, True, None, 1)"
  by (simp add: rule_defs)





subsection \<open>Invalid arguments\<close>









subsection \<open>Rules that the command line does not mention\<close>

lemma step_frame_bool:
  assumes "step so token rest s = Inr (v, s1)"
    and "\<not> (CHR ''-'' = first_char token \<and>
            find (\<lambda>g. prefixShort g = first_char (tl token)) (flags so) = Some f)"
    and "distinct (map SmartOptionsFlagArg.destVariable (flags so))"
    and "f \<in> set (flags so)"
  shows "bools (mem s1) (SmartOptionsFlagArg.destVariable f) =
         bools (mem s) (SmartOptionsFlagArg.destVariable f)"
proof (cases "CHR ''-'' = first_char token")
  case False
  with assms(1) show ?thesis
    by (auto simp: step_def positional_mem store_str_def split: if_splits)
next
  case dash: True
  show ?thesis
  proof (cases "find (\<lambda>g. prefixShort g = first_char (tl token)) (flags so)")
    case (Some g)
    with assms(2) dash have "g \<noteq> f" by auto
    moreover from Some have "g \<in> set (flags so)" using find_Some_set by fastforce
    ultimately have "SmartOptionsFlagArg.destVariable g \<noteq> SmartOptionsFlagArg.destVariable f"
      using distinct_dest_flags [OF assms(3)] assms(4) by blast
    with step_flag [OF dash Some, of rest s] assms(1) show ?thesis
      by (auto simp: store_bool_def)
  next
    case None
    with assms(1) dash show ?thesis
      by (auto simp: step_def flag_or_option_def flags_loop_find
          split: sum.splits prod.splits bool.splits dest: options_loop_bools)
  qed
qed

lemma step_frame_str:
  assumes "step so token rest s = Inr (v, s1)"
    and "\<not> (CHR ''-'' = first_char token \<and>
            find (\<lambda>g. prefixShort g = first_char (tl token)) (flags so) = None \<and>
            find (\<lambda>x. prefixShort x = first_char (tl token)) (options so) = Some opt)"
    and "distinct (map SmartOptionsOptionArg.destVariable (options so) @
                   map SmartOptionsPositionalArg.destVariable (posArgs so))"
    and "opt \<in> set (options so)"
  shows "strs (mem s1) (SmartOptionsOptionArg.destVariable opt) =
         strs (mem s) (SmartOptionsOptionArg.destVariable opt)"
proof (cases "CHR ''-'' = first_char token")
  case False
  have ne: "SmartOptionsPositionalArg.destVariable (posArgs so ! i) \<noteq>
        SmartOptionsOptionArg.destVariable opt" if "i < length (posArgs so)" for i
  proof -
    from that have "SmartOptionsPositionalArg.destVariable (posArgs so ! i)
        \<in> set (map SmartOptionsPositionalArg.destVariable (posArgs so))"
      by simp
    moreover from assms(4) have "SmartOptionsOptionArg.destVariable opt
        \<in> set (map SmartOptionsOptionArg.destVariable (options so))"
      by simp
    ultimately show ?thesis using assms(3) by auto
  qed
  have "strs (mem (positional so token s)) (SmartOptionsOptionArg.destVariable opt) =
      strs (mem s) (SmartOptionsOptionArg.destVariable opt)"
  proof (cases "posArgsIt s < length (posArgs so)")
    case True
    from ne [OF True] show ?thesis
      by (simp add: positional_mem store_str_def True)
  next
    case False
    then show ?thesis by (simp add: positional_mem)
  qed
  with False assms(1) show ?thesis
    by (auto simp: step_def)
next
  case dash: True
  show ?thesis
  proof (cases "find (\<lambda>g. prefixShort g = first_char (tl token)) (flags so)")
    case (Some g)
    with step_flag [OF dash Some, of rest s] assms(1) show ?thesis
      by (auto simp: store_bool_def)
  next
    case None
    from assms(3) have d: "distinct (map SmartOptionsOptionArg.destVariable (options so))"
      by simp
    from assms(1) dash None obtain p k m' err' where
      ol: "options_loop (options so) (tl token) rest (mem s) (strErrMessage s) =
            Inr (p, k, m', err')" and m': "mem s1 = m'"
      by (auto simp: step_def flag_or_option_def flags_loop_find
          split: sum.splits prod.splits bool.splits)
    from options_loop_strs [OF ol] show ?thesis
    proof
      assume "m' = mem s"
      with m' show ?thesis by simp
    next
      assume "\<exists>x val. find (\<lambda>x. prefixShort x = first_char (tl token)) (options so) = Some x \<and>
          m' = store_str (SmartOptionsOptionArg.destVariable x) (Some val) (mem s)"
      then obtain x val where fo: "find (\<lambda>x. prefixShort x = first_char (tl token)) (options so) = Some x"
        and w: "m' = store_str (SmartOptionsOptionArg.destVariable x) (Some val) (mem s)"
        by blast
      from fo assms(2) dash None have "x \<noteq> opt" by auto
      moreover from fo have "x \<in> set (options so)" using find_Some_set by fastforce
      ultimately have "SmartOptionsOptionArg.destVariable x \<noteq> SmartOptionsOptionArg.destVariable opt"
        using distinct_dest_options [OF d] assms(4) by blast
      with w m' show ?thesis by (simp add: store_str_def)
    qed
  qed
qed

lemma scan_frame_bool:
  assumes "scan so tokens s = Inr (r, s')"
    and "\<forall>p \<in> set (visited so tokens s).
           \<not> (CHR ''-'' = first_char (fst p) \<and>
              find (\<lambda>g. prefixShort g = first_char (tl (fst p))) (flags so) = Some f)"
    and "distinct (map SmartOptionsFlagArg.destVariable (flags so))"
    and "f \<in> set (flags so)"
  shows "bools (mem s') (SmartOptionsFlagArg.destVariable f) =
         bools (mem s) (SmartOptionsFlagArg.destVariable f)"
  using assms
proof (induction so tokens s rule: scan.induct)
  case (1 so s)
  then show ?case by simp
next
  case (2 so token rest s)
  from "2.prems"(1) obtain v s1 where st: "step so token rest s = Inr (v, s1)"
    by (auto split: sum.splits)
  from "2.prems"(2) have nm: "\<not> (CHR ''-'' = first_char token \<and>
      find (\<lambda>g. prefixShort g = first_char (tl token)) (flags so) = Some f)"
    by simp
  have one: "bools (mem s1) (SmartOptionsFlagArg.destVariable f) =
         bools (mem s) (SmartOptionsFlagArg.destVariable f)"
    using step_frame_bool [OF st nm "2.prems"(3,4)] .
  show ?case
  proof (cases v)
    case (Return st')
    with st "2.prems"(1) one show ?thesis by simp
  next
    case (Continue k)
    with st "2.prems"(1) have sc: "scan so (drop k rest) s1 = Inr (r, s')" by simp
    from st Continue "2.prems"(2) have vis: "\<forall>p \<in> set (visited so (drop k rest) s1).
           \<not> (CHR ''-'' = first_char (fst p) \<and>
              find (\<lambda>g. prefixShort g = first_char (tl (fst p))) (flags so) = Some f)"
      by simp
    from "2.IH" [OF st [symmetric, THEN sym] refl Continue sc vis "2.prems"(3,4)] one
    show ?thesis by simp
  qed
qed

lemma scan_frame_str:
  assumes "scan so tokens s = Inr (r, s')"
    and "\<forall>p \<in> set (visited so tokens s).
           \<not> (CHR ''-'' = first_char (fst p) \<and>
              find (\<lambda>g. prefixShort g = first_char (tl (fst p))) (flags so) = None \<and>
              find (\<lambda>x. prefixShort x = first_char (tl (fst p))) (options so) = Some opt)"
    and "distinct (map SmartOptionsOptionArg.destVariable (options so) @
                   map SmartOptionsPositionalArg.destVariable (posArgs so))"
    and "opt \<in> set (options so)"
  shows "strs (mem s') (SmartOptionsOptionArg.destVariable opt) =
         strs (mem s) (SmartOptionsOptionArg.destVariable opt)"
  using assms
proof (induction so tokens s rule: scan.induct)
  case (1 so s)
  then show ?case by simp
next
  case (2 so token rest s)
  from "2.prems"(1) obtain v s1 where st: "step so token rest s = Inr (v, s1)"
    by (auto split: sum.splits)
  from "2.prems"(2) have nm: "\<not> (CHR ''-'' = first_char token \<and>
      find (\<lambda>g. prefixShort g = first_char (tl token)) (flags so) = None \<and>
      find (\<lambda>x. prefixShort x = first_char (tl token)) (options so) = Some opt)"
    by simp
  have one: "strs (mem s1) (SmartOptionsOptionArg.destVariable opt) =
         strs (mem s) (SmartOptionsOptionArg.destVariable opt)"
    using step_frame_str [OF st nm "2.prems"(3,4)] .
  show ?case
  proof (cases v)
    case (Return st')
    with st "2.prems"(1) one show ?thesis by simp
  next
    case (Continue k)
    with st "2.prems"(1) have sc: "scan so (drop k rest) s1 = Inr (r, s')" by simp
    from st Continue "2.prems"(2) have vis: "\<forall>p \<in> set (visited so (drop k rest) s1).
           \<not> (CHR ''-'' = first_char (fst p) \<and>
              find (\<lambda>g. prefixShort g = first_char (tl (fst p))) (flags so) = None \<and>
              find (\<lambda>x. prefixShort x = first_char (tl (fst p))) (options so) = Some opt)"
      by simp
    from "2.IH" [OF st [symmetric, THEN sym] refl Continue sc vis "2.prems"(3,4)] one
    show ?thesis by simp
  qed
qed

lemma ProcessCommandArgs_mem:
  assumes "ProcessCommandArgs so argv m = Inr (st, s')"
  shows "\<exists>r s1. scan so (drop 1 argv) (begin_session m) = Inr (r, s1) \<and> mem s' = mem s1"
  using assms
  by (auto simp: ProcessCommandArgs_scan validate_def Let_def
      split: sum.splits option.splits if_splits)

text \<open>
  Claim C9. After a parse that returns \<^verbatim>\<open>SMARTOPTIONS_SUCCESS\<close>, when the registered
  destinations are distinct, every registered flag whose identifier is the first body
  character of no token the loop has read has the destination it had before the parse
  (false, as \<^verbatim>\<open>AddFlag\<close> left it), and so has every such option (\<^verbatim>\<open>NULL\<close>, as
  \<^verbatim>\<open>AddOption\<close> left it).
\<close>

theorem unmentioned_rules_keep_their_values:
  assumes "ProcessCommandArgs so argv m = Inr (SMARTOPTIONS_SUCCESS, s')"
    and "distinct (map SmartOptionsFlagArg.destVariable (flags so))"
    and "distinct (map SmartOptionsOptionArg.destVariable (options so) @
                   map SmartOptionsPositionalArg.destVariable (posArgs so))"
  shows "(\<forall>f \<in> set (flags so).
            (\<forall>(token, rest) \<in> set (visited so (drop 1 argv) (begin_session m)).
               \<not> (CHR ''-'' = first_char token \<and> first_char (tl token) = prefixShort f))
            \<longrightarrow> bools (mem s') (SmartOptionsFlagArg.destVariable f) =
                  bools m (SmartOptionsFlagArg.destVariable f))
       \<and> (\<forall>opt \<in> set (options so).
            (\<forall>(token, rest) \<in> set (visited so (drop 1 argv) (begin_session m)).
               \<not> (CHR ''-'' = first_char token \<and> first_char (tl token) = prefixShort opt))
            \<longrightarrow> strs (mem s') (SmartOptionsOptionArg.destVariable opt) =
                  strs m (SmartOptionsOptionArg.destVariable opt))"
proof -
  from ProcessCommandArgs_mem [OF assms(1)] obtain r s1 where
    sc: "scan so (drop 1 argv) (begin_session m) = Inr (r, s1)" and m: "mem s' = mem s1"
    by blast
  have m0: "mem (begin_session m) = m" by (simp add: begin_session_def)
  show ?thesis
  proof (intro conjI ballI impI)
    fix f
    assume f: "f \<in> set (flags so)"
      and nv: "\<forall>(token, rest) \<in> set (visited so (drop 1 argv) (begin_session m)).
               \<not> (CHR ''-'' = first_char token \<and> first_char (tl token) = prefixShort f)"
    have "\<forall>p \<in> set (visited so (drop 1 argv) (begin_session m)).
           \<not> (CHR ''-'' = first_char (fst p) \<and>
              find (\<lambda>g. prefixShort g = first_char (tl (fst p))) (flags so) = Some f)"
    proof
      fix p assume p: "p \<in> set (visited so (drop 1 argv) (begin_session m))"
      with nv have "\<not> (CHR ''-'' = first_char (fst p) \<and> first_char (tl (fst p)) = prefixShort f)"
        by (auto simp: case_prod_beta)
      then show "\<not> (CHR ''-'' = first_char (fst p) \<and>
              find (\<lambda>g. prefixShort g = first_char (tl (fst p))) (flags so) = Some f)"
        using find_Some_set [of "\<lambda>g. prefixShort g = first_char (tl (fst p))" "flags so" f]
        by auto
    qed
    from scan_frame_bool [OF sc this assms(2) f] m m0
    show "bools (mem s') (SmartOptionsFlagArg.destVariable f) =
          bools m (SmartOptionsFlagArg.destVariable f)"
      by simp
  next
    fix opt
    assume opt: "opt \<in> set (options so)"
      and nv: "\<forall>(token, rest) \<in> set (visited so (drop 1 argv) (begin_session m)).
               \<not> (CHR ''-'' = first_char token \<and> first_char (tl token) = prefixShort opt)"
    have "\<forall>p \<in> set (visited so (drop 1 argv) (begin_session m)).
           \<not> (CHR ''-'' = first_char (fst p) \<and>
              find (\<lambda>g. prefixShort g = first_char (tl (fst p))) (flags so) = None \<and>
              find (\<lambda>x. prefixShort x = first_char (tl (fst p))) (options so) = Some opt)"
    proof
      fix p assume p: "p \<in> set (visited so (drop 1 argv) (begin_session m))"
      with nv have "\<not> (CHR ''-'' = first_char (fst p) \<and> first_char (tl (fst p)) = prefixShort opt)"
        by (auto simp: case_prod_beta)
      then show "\<not> (CHR ''-'' = first_char (fst p) \<and>
              find (\<lambda>g. prefixShort g = first_char (tl (fst p))) (flags so) = None \<and>
              find (\<lambda>x. prefixShort x = first_char (tl (fst p))) (options so) = Some opt)"
        using find_Some_set [of "\<lambda>x. prefixShort x = first_char (tl (fst p))" "options so" opt]
        by auto
    qed
    from scan_frame_str [OF sc this assms(3) opt] m m0
    show "strs (mem s') (SmartOptionsOptionArg.destVariable opt) =
          strs m (SmartOptionsOptionArg.destVariable opt)"
      by simp
  qed
qed

theorem unmentioned_rules_keep_their_values_witness:
  "\<exists>s'. ProcessCommandArgs (fst several) [''App'', ''-a'', ''-o'', ''-b'', ''pos''] (snd several) =
           Inr (SMARTOPTIONS_SUCCESS, s') \<and>
         bools (mem s') 2 = False \<and> strs (mem s') 2 = None"
proof -
  let ?argv = "[''App'', ''-a'', ''-o'', ''-b'', ''pos'']"
  let ?b = "\<lparr>prefixShort = CHR ''b'', prefixLong = None, metaVariable = None,
              helpString = None, SmartOptionsFlagArg.destVariable = 2\<rparr>"
  let ?p = "\<lparr>prefixShort = CHR ''p'', prefixLong = None, metaVariable = None,
              helpString = None, SmartOptionsOptionArg.destVariable = 2\<rparr>"
  obtain s' where run: "ProcessCommandArgs (fst several) ?argv (snd several) =
      Inr (SMARTOPTIONS_SUCCESS, s')"
    by (simp add: several_defs)
  have d1: "distinct (map SmartOptionsFlagArg.destVariable (flags (fst several)))"
    by (simp add: several_defs)
  have d2: "distinct (map SmartOptionsOptionArg.destVariable (options (fst several)) @
                   map SmartOptionsPositionalArg.destVariable (posArgs (fst several)))"
    by (simp add: several_defs)
  have vis: "visited (fst several) (drop 1 ?argv) (begin_session (snd several)) =
      [(''-a'', [''-o'', ''-b'', ''pos'']), (''-o'', [''-b'', ''pos'']), (''pos'', [])]"
    by (simp add: several_defs)
  have b: "?b \<in> set (flags (fst several))" and p: "?p \<in> set (options (fst several))"
    by (simp_all add: several_defs)
  have init: "bools (snd several) 2 = False" "strs (snd several) 2 = None"
    by (simp_all add: several_defs)
  note frame = unmentioned_rules_keep_their_values [OF run d1 d2, unfolded vis]
  from frame [THEN conjunct1, THEN bspec, OF b]
  have "bools (mem s') 2 = bools (snd several) 2" by simp
  moreover from frame [THEN conjunct2, THEN bspec, OF p]
  have "strs (mem s') 2 = strs (snd several) 2" by simp
  ultimately show ?thesis using run init by simp
qed

subsection \<open>The strings of the messages\<close>

lemma rfind_append:
  "c \<notin> set ys \<Longrightarrow> rfind (xs @ c # ys) c = Some (length xs)"
proof (induction xs)
  case Nil
  have "rfind ys c = None" using Nil by (induction ys) auto
  then show ?case by simp
next
  case (Cons x xs)
  then show ?case by simp
qed

lemma rfind_less: "rfind s c = Some i \<Longrightarrow> i < length s"
  by (induction s arbitrary: i) (auto split: option.splits if_splits)

lemma rfind_None: "rfind s c = None \<longleftrightarrow> c \<notin> set s"
  by (induction s) (auto split: option.splits)

lemma rfind_Some:
  "c \<in> set s \<Longrightarrow> \<exists>i. rfind s c = Some i \<and> i < length s"
  using rfind_less [of s c] rfind_None [of s c] by (cases "rfind s c") auto

lemma replace_found:
  "c \<in> set s \<Longrightarrow> \<exists>r. replace s (rfind s c) n t = Inr r"
  using rfind_Some [of c s] by (auto simp: replace_def)

lemma take_append_keep:
  "n \<le> length ys \<Longrightarrow> take (length (xs @ ys) - n) (xs @ ys) = xs @ take (length ys - n) ys"
  by simp

lemma erase_last2_append:
  "2 \<le> length ys \<Longrightarrow> erase_last2 (xs @ ys) = Inr (xs @ take (length ys - 2) ys)"
  unfolding erase_last2_def using take_append_keep [of 2 ys xs] by simp

lemma append_metas_Inr:
  assumes "\<forall>p \<in> set ps. metaVariable p \<noteq> None"
  shows "\<exists>tail. append_metas ps msg = Inr (msg @ tail) \<and>
           (ps \<noteq> [] \<longrightarrow> CHR '','' \<in> set (take (length tail - 2) tail) \<or> length ps = 1) \<and>
           (ps \<noteq> [] \<longrightarrow> 2 \<le> length tail)"
  using assms
proof (induction ps arbitrary: msg)
  case Nil
  then show ?case by simp
next
  case (Cons p ps)
  then obtain mv where mv: "metaVariable p = Some mv" by auto
  let ?b = "[apostrophe] @ mv @ [apostrophe] @ '', ''"
  from Cons.IH [of "msg @ ?b"] Cons.prems obtain tail where
    t: "append_metas ps (msg @ ?b) = Inr ((msg @ ?b) @ tail)"
    and c: "ps \<noteq> [] \<longrightarrow> 2 \<le> length tail"
    by auto
  have "append_metas (p # ps) msg = Inr (msg @ (?b @ tail))"
    using mv t by simp
  moreover have "CHR '','' \<in> set (take (length (?b @ tail) - 2) (?b @ tail)) \<or>
      length (p # ps) = 1"
  proof (cases ps)
    case Nil
    then show ?thesis by simp
  next
    case (Cons a list)
    with c have "2 \<le> length tail" by simp
    then have "take (length (?b @ tail) - 2) (?b @ tail) = ?b @ take (length tail - 2) tail"
      by (rule take_append_keep)
    moreover have "CHR '','' \<in> set ?b" by simp
    ultimately show ?thesis by (simp only: set_append Un_iff) blast
  qed
  moreover have "2 \<le> length (?b @ tail)" by simp
  ultimately show ?case by blast
qed

lemma mandatory_message_Inr:
  assumes "posArgs so \<noteq> []" and "\<forall>p \<in> set (posArgs so). metaVariable p \<noteq> None"
  shows "\<exists>r. mandatory_message so msg = Inr r"
proof (cases "length (posArgs so) = 1")
  case True
  then obtain p where "posArgs so = [p]" by (cases "posArgs so") auto
  with assms(2) show ?thesis by (auto simp: mandatory_message_def)
next
  case False
  let ?msg = "msg @ ''. The mandatory parameters are ''"
  from append_metas_Inr [OF assms(2), of ?msg] assms(1) False obtain tail where
    t: "append_metas (posArgs so) ?msg = Inr (?msg @ tail)"
    and c: "CHR '','' \<in> set (take (length tail - 2) tail)" and l: "2 \<le> length tail"
    by auto
  from l have e: "erase_last2 (?msg @ tail) = Inr (?msg @ take (length tail - 2) tail)"
    by (rule erase_last2_append)
  from c have "CHR '','' \<in> set (?msg @ take (length tail - 2) tail)" by simp
  from replace_found [OF this, of 1 "'' &''"] obtain r where
    "replace (?msg @ take (length tail - 2) tail)
       (rfind (?msg @ take (length tail - 2) tail) CHR '','') 1 '' &'' = Inr r" ..
  with t e False show ?thesis by (simp add: mandatory_message_def)
qed

lemma fix_surplus_message_Inr:
  "msg = [] \<or> CHR '','' \<in> set msg \<Longrightarrow> \<exists>r. fix_surplus_message msg = Inr r"
  using replace_found [of "CHR '',''" "msg @ '')''" 1 "'' &''"]
  by (auto simp: fix_surplus_message_def Let_def)

subsection \<open>Arity\<close>

lemma scan_positionals:
  "\<forall>t \<in> set tokens. CHR ''-'' \<noteq> first_char t
   \<Longrightarrow> scan so tokens s = Inr (None, foldl (\<lambda>s t. positional so t s) s tokens)"
  by (induction tokens arbitrary: s) (simp_all add: step_positional)

lemma positional_fits:
  assumes "posArgsIt s < length (posArgs so)"
  shows "positional so token s =
           s\<lparr>mem := store_str
                      (SmartOptionsPositionalArg.destVariable (posArgs so ! posArgsIt s))
                      (Some token) (mem s),
             posArgsIt := posArgsIt s + 1, posArgsCount := posArgsCount s + 1\<rparr>"
  using assms by (simp add: positional_def)

lemma positionals_fit:
  assumes "distinct (map SmartOptionsPositionalArg.destVariable (posArgs so))"
    and "posArgsIt s + length tokens \<le> length (posArgs so)"
  shows "posArgsIt (foldl (\<lambda>s t. positional so t s) s tokens) = posArgsIt s + length tokens
       \<and> posArgsCount (foldl (\<lambda>s t. positional so t s) s tokens) =
           posArgsCount s + length tokens
       \<and> strPosArgErrMsg (foldl (\<lambda>s t. positional so t s) s tokens) = strPosArgErrMsg s
       \<and> (\<forall>i < length tokens.
             strs (mem (foldl (\<lambda>s t. positional so t s) s tokens))
               (SmartOptionsPositionalArg.destVariable (posArgs so ! (posArgsIt s + i))) =
             Some (tokens ! i))"
  using assms(2)
proof (induction tokens rule: rev_induct)
  case Nil
  then show ?case by simp
next
  case (snoc t tokens)
  let ?s1 = "foldl (\<lambda>s t. positional so t s) s tokens"
  from snoc have ih: "posArgsIt ?s1 = posArgsIt s + length tokens"
    "posArgsCount ?s1 = posArgsCount s + length tokens"
    "strPosArgErrMsg ?s1 = strPosArgErrMsg s"
    "\<forall>i < length tokens.
        strs (mem ?s1) (SmartOptionsPositionalArg.destVariable (posArgs so ! (posArgsIt s + i))) =
        Some (tokens ! i)"
    by simp_all
  from snoc.prems ih(1) have lt: "posArgsIt ?s1 < length (posArgs so)" by simp
  have last: "foldl (\<lambda>s t. positional so t s) s (tokens @ [t]) = positional so t ?s1"
    by simp
  have "strs (mem (positional so t ?s1))
          (SmartOptionsPositionalArg.destVariable (posArgs so ! (posArgsIt s + i))) =
        Some ((tokens @ [t]) ! i)" if "i < length (tokens @ [t])" for i
  proof (cases "i = length tokens")
    case True
    then show ?thesis
      by (simp add: positional_fits [OF lt] ih(1) store_str_def)
  next
    case False
    with that have i: "i < length tokens" by simp
    with snoc.prems have "posArgsIt s + i < length (posArgs so)" by simp
    with lt ih(1) i assms(1)
    have "SmartOptionsPositionalArg.destVariable (posArgs so ! (posArgsIt s + i)) \<noteq>
          SmartOptionsPositionalArg.destVariable (posArgs so ! posArgsIt ?s1)"
      by (simp add: distinct_conv_nth)
    with ih(4) i show ?thesis
      by (simp add: positional_fits [OF lt] store_str_def nth_append)
  qed
  with ih lt show ?case
    unfolding last by (simp add: positional_fits [OF lt])
qed

lemma positionals_surplus:
  assumes "length (posArgs so) \<le> posArgsIt s"
    and "strPosArgErrMsg s = [] \<or> CHR '','' \<in> set (strPosArgErrMsg s)"
  shows "mem (foldl (\<lambda>s t. positional so t s) s tokens) = mem s
       \<and> posArgsCount (foldl (\<lambda>s t. positional so t s) s tokens) =
           posArgsCount s + length tokens
       \<and> (tokens \<noteq> [] \<longrightarrow>
            CHR '','' \<in> set (strPosArgErrMsg (foldl (\<lambda>s t. positional so t s) s tokens)))
       \<and> (tokens = [] \<longrightarrow>
            strPosArgErrMsg (foldl (\<lambda>s t. positional so t s) s tokens) = strPosArgErrMsg s)"
  using assms
proof (induction tokens arbitrary: s)
  case Nil
  then show ?case by simp
next
  case (Cons t tokens)
  let ?s1 = "positional so t s"
  from Cons.prems have s1: "mem ?s1 = mem s" "posArgsIt ?s1 = posArgsIt s"
    "posArgsCount ?s1 = posArgsCount s + 1" "CHR '','' \<in> set (strPosArgErrMsg ?s1)"
    by (auto simp: positional_def Let_def)
  from Cons.IH [of ?s1] s1 Cons.prems(1) show ?case
    by (cases tokens) auto
qed

lemma validate_arity:
  assumes "autoPrintHelp so \<Longrightarrow>
             posArgs so \<noteq> [] \<and> (\<forall>p \<in> set (posArgs so). metaVariable p \<noteq> None)"
  shows "\<exists>s'. validate so s =
           Inr (if posArgsCount s = length (posArgs so) then SMARTOPTIONS_SUCCESS
                else SMARTOPTIONS_INVALID_NUMBEROF_ARGUMENTS, s') \<and> mem s' = mem s"
proof (cases "autoPrintHelp so")
  case False
  then show ?thesis by (simp add: validate_def Let_def)
next
  case True
  with assms mandatory_message_Inr [of so] have "\<exists>r. mandatory_message so msg = Inr r" for msg
    by blast
  then obtain r where "mandatory_message so
       (if strPosArgErrMsg s = []
        then appName so @ '': Error, invalid number of mandatory arguments''
        else strPosArgErrMsg s) = Inr r" by blast
  with True show ?thesis by (simp add: validate_def Let_def)
qed

text \<open>
  Claim C1. With N positional rules, N tokens that do not begin with \<open>-\<close> give
  \<^verbatim>\<open>SMARTOPTIONS_SUCCESS\<close>, and N-1 or N+1 of them give
  \<^verbatim>\<open>SMARTOPTIONS_INVALID_NUMBEROF_ARGUMENTS\<close>. With no positional rule, automatic help and
  one token, the parse does not return: the only comma of the message has been rewritten
  by the repair after the loop, \<^verbatim>\<open>rfind\<close> gives \<^verbatim>\<open>npos\<close> and \<^verbatim>\<open>replace\<close> throws
  \<^verbatim>\<open>std::out_of_range\<close>.
\<close>

theorem surplus_token_without_rules_throws:
  "ProcessCommandArgs (SmartOptions ''App'' True) [''App'', ''x''] m = Inl out_of_range"
  by (simp add: parse_defs)

text \<open>
  Everywhere else the arity is checked as the claim says. For tokens that do not begin with
  \<open>-\<close> and positional rules with distinct destinations, when automatic help is off, or
  on with at least one positional rule and every rule named: the status is
  \<^verbatim>\<open>SMARTOPTIONS_SUCCESS\<close> exactly when there are as many tokens as rules, and
  \<^verbatim>\<open>SMARTOPTIONS_INVALID_NUMBEROF_ARGUMENTS\<close> otherwise; in both cases the leading tokens
  are bound in order.
\<close>

lemma positional_arity:
  assumes "\<forall>t \<in> set tokens. CHR ''-'' \<noteq> first_char t"
    and "distinct (map SmartOptionsPositionalArg.destVariable (posArgs so))"
    and "autoPrintHelp so \<Longrightarrow>
           posArgs so \<noteq> [] \<and> (\<forall>p \<in> set (posArgs so). metaVariable p \<noteq> None)"
  shows "\<exists>s'. ProcessCommandArgs so (app # tokens) m =
           Inr (if length tokens = length (posArgs so) then SMARTOPTIONS_SUCCESS
                else SMARTOPTIONS_INVALID_NUMBEROF_ARGUMENTS, s') \<and>
         (\<forall>i < min (length tokens) (length (posArgs so)).
            strs (mem s') (SmartOptionsPositionalArg.destVariable (posArgs so ! i)) =
            Some (tokens ! i))"
proof -
  let ?n = "length (posArgs so)"
  let ?run = "\<lambda>s ts. foldl (\<lambda>s t. positional so t s) s ts"
  let ?s1 = "?run (begin_session m) (take ?n tokens)"
  let ?s2 = "?run ?s1 (drop ?n tokens)"
  have s0: "posArgsIt (begin_session m) = 0" "posArgsCount (begin_session m) = 0"
    "strPosArgErrMsg (begin_session m) = []"
    by (simp_all add: begin_session_def)
  have split: "?run (begin_session m) tokens = ?s2"
    by (simp flip: foldl_append)
  from positionals_fit [OF assms(2), of "begin_session m" "take ?n tokens"] s0
  have s1: "posArgsIt ?s1 = min (length tokens) ?n" "posArgsCount ?s1 = min (length tokens) ?n"
    "strPosArgErrMsg ?s1 = []"
    "\<forall>i < min (length tokens) ?n.
        strs (mem ?s1) (SmartOptionsPositionalArg.destVariable (posArgs so ! i)) =
        Some (tokens ! i)"
    by simp_all
  have "mem ?s2 = mem ?s1 \<and> posArgsCount ?s2 = length tokens \<and>
    (strPosArgErrMsg ?s2 = [] \<or> CHR '','' \<in> set (strPosArgErrMsg ?s2))"
  proof (cases "?n \<le> length tokens")
    case True
    with s1 have "?n \<le> posArgsIt ?s1" by simp
    from positionals_surplus [OF this, of "drop ?n tokens"] s1 True
    show ?thesis by auto
  next
    case False
    then have "drop ?n tokens = []" by simp
    with s1 False show ?thesis by simp
  qed
  then have s2: "mem ?s2 = mem ?s1" "posArgsCount ?s2 = length tokens"
    "strPosArgErrMsg ?s2 = [] \<or> CHR '','' \<in> set (strPosArgErrMsg ?s2)"
    by blast+
  from fix_surplus_message_Inr [OF s2(3)] obtain r where
    r: "fix_surplus_message (strPosArgErrMsg ?s2) = Inr r" ..
  from validate_arity [OF assms(3), of "?s2\<lparr>strPosArgErrMsg := r\<rparr>"] s2(2) obtain s' where
    v: "validate so (?s2\<lparr>strPosArgErrMsg := r\<rparr>) =
          Inr (if length tokens = ?n then SMARTOPTIONS_SUCCESS
               else SMARTOPTIONS_INVALID_NUMBEROF_ARGUMENTS, s')"
    and m: "mem s' = mem ?s2"
    by auto
  have "ProcessCommandArgs so (app # tokens) m =
      Inr (if length tokens = ?n then SMARTOPTIONS_SUCCESS
           else SMARTOPTIONS_INVALID_NUMBEROF_ARGUMENTS, s')"
    using scan_positionals [OF assms(1), of so "begin_session m"] r v
    unfolding split by (simp add: ProcessCommandArgs_scan)
  with m s2(1) s1(4) show ?thesis by auto
qed

subsection \<open>The message about surplus positional arguments\<close>

text \<open>
  When several surplus tokens have been joined and the last has no comma, the repair
  rewrites the last separator. When a single surplus token has no comma, it rewrites the
  comma of the text in front of the parenthesis.
\<close>

lemma fix_surplus_message_last_separator:
  assumes "CHR '','' \<notin> set t"
  shows "fix_surplus_message (pre @ '', '' @ t) = Inr (pre @ '' & '' @ t @ '')'')"
proof -
  have "rfind (pre @ CHR '','' # (CHR '' '' # t @ '')'')) CHR '','' = Some (length pre)"
    using assms by (intro rfind_append) simp
  then show ?thesis
    by (simp add: fix_surplus_message_def replace_def)
qed

lemma fix_surplus_message_single:
  assumes "CHR '','' \<notin> set t"
  shows "fix_surplus_message
           (app @ '': Error, invalid number of mandatory arguments ('' @ t) =
         Inr (app @ '': Error & invalid number of mandatory arguments ('' @ t @ '')'')"
proof -
  have "rfind ((app @ '': Error'') @ CHR '','' #
                ('' invalid number of mandatory arguments ('' @ t @ '')'')) CHR '','' =
        Some (length (app @ '': Error''))"
    using assms by (intro rfind_append) simp
  then show ?thesis
    by (simp add: fix_surplus_message_def replace_def)
qed

text \<open>
  Claim C8. The message for surplus tokens joins them by a comma and a space, with the last
  separator rewritten to an ampersand, behind the unaltered text
  \<^verbatim>\<open><appName>: Error, invalid number of mandatory arguments (\<close>. For a single surplus token
  there is no separator, and the comma that is rewritten is the one behind \<^verbatim>\<open>Error\<close>:
  in the message as built without automatic help, and in the line printed with it.
\<close>

theorem single_surplus_token_message:
  "map_sum id (\<lambda>r. (fst r, strPosArgErrMsg (snd r)))
     (ProcessCommandArgs
        (fst (AddPositionalArgument (Some ''posArg_1'') None 0 (SmartOptions ''App'' False, m)))
        [''App'', ''a'', ''b''] m)
   = Inr (SMARTOPTIONS_INVALID_NUMBEROF_ARGUMENTS,
          ''App: Error & invalid number of mandatory arguments (b)'')
   \<and> map_sum id (\<lambda>r. (fst r, cout (snd r)))
     (ProcessCommandArgs
        (fst (AddPositionalArgument (Some ''posArg_1'') None 0 (SmartOptions ''App'' True, m)))
        [''App'', ''a'', ''b''] m)
   = Inr (SMARTOPTIONS_INVALID_NUMBEROF_ARGUMENTS,
          [''App: Error & invalid number of mandatory arguments (b). '' @
           ''The only mandatory parameter is '' @ [apostrophe] @ ''posArg_1'' @ [apostrophe]])"
  by (simp add: parse_defs)

end
